theory Spec2Isabelle
  imports Main
begin

section \<open>The document the script runs on\<close>

text \<open>
  \<^verbatim>\<open>task.js\<close> is a browser script of two parts: a \<^verbatim>\<open>DOMContentLoaded\<close> listener that
  enables the element with id \<^verbatim>\<open>submit\<close>, and a \<^verbatim>\<open>keydown\<close> listener that focuses and
  clicks one of the elements named \<^verbatim>\<open>assessment\<close>.

  The document is a list of elements in document order; a reference to an element is
  its position in that list. Of an element the script reads or writes its tag (through
  the selector \<^verbatim>\<open>'input'\<close>), its id, its name, \<^verbatim>\<open>checked\<close>, \<^verbatim>\<open>disabled\<close> and its click
  listeners. An attribute that is absent is the empty string. The only listener the
  script ever registers on an element is the closure
  \<^verbatim>\<open>() => { submitButton.disabled = false; }\<close>, which is kept with the value of
  \<^verbatim>\<open>submitButton\<close> it has captured (\<open>None\<close> is \<^verbatim>\<open>null\<close>).
\<close>

datatype error = TypeError

datatype listener = Listener "nat option"

record element =
  tag :: string
  elem_id :: string
  name :: string
  checked :: bool
  disabled :: bool
  listeners :: "listener list"

datatype call = Focus nat | Click nat

text \<open>
  Besides the elements, the page keeps what the script does to its environment: the
  calls of \<^verbatim>\<open>focus()\<close> and \<^verbatim>\<open>click()\<close> in the order they are made, the values given to
  \<^verbatim>\<open>console.log\<close>, and the exceptions that left a listener uncaught and were reported by
  the browser.
\<close>

record page =
  elements :: "element list"
  calls :: "call list"
  console :: "error list"
  uncaught :: "error list"

text \<open>A handler either completes (\<open>None\<close>) or throws, in the state it has reached.\<close>

type_synonym completion = "error option \<times> page"

definition getElementById :: "page \<Rightarrow> string \<Rightarrow> nat option" where
  "getElementById p s =
     find (\<lambda>i. elem_id (elements p ! i) = s) [0..<length (elements p)]"

definition querySelectorAll :: "page \<Rightarrow> string \<Rightarrow> nat list" where
  "querySelectorAll p t =
     filter (\<lambda>i. tag (elements p ! i) = t) [0..<length (elements p)]"

definition getElementsByName :: "page \<Rightarrow> string \<Rightarrow> nat list" where
  "getElementsByName p s =
     filter (\<lambda>i. name (elements p ! i) = s) [0..<length (elements p)]"

text \<open>
  Reading a collection at an index gives \<^verbatim>\<open>undefined\<close> (\<open>None\<close>) outside its range.
\<close>

definition item :: "'a list \<Rightarrow> int \<Rightarrow> 'a option" where
  "item xs i = (if 0 \<le> i \<and> i < int (length xs) then Some (xs ! nat i) else None)"

definition set_disabled :: "nat \<Rightarrow> bool \<Rightarrow> page \<Rightarrow> page" where
  "set_disabled j b p =
     p\<lparr>elements := (elements p)[j := (elements p ! j)\<lparr>disabled := b\<rparr>]\<rparr>"

definition addEventListener :: "nat \<Rightarrow> listener \<Rightarrow> page \<Rightarrow> page" where
  "addEventListener j l p =
     p\<lparr>elements := (elements p)[j := (elements p ! j)\<lparr>listeners := listeners (elements p ! j) @ [l]\<rparr>]\<rparr>"

text \<open>
  Running the closure \<^verbatim>\<open>() => { submitButton.disabled = false; }\<close>. Assigning to a
  property of \<^verbatim>\<open>null\<close> throws a TypeError; an exception that leaves a listener is
  reported by the browser and does not reach the code that dispatched the event.
\<close>

fun run_listener :: "listener \<Rightarrow> page \<Rightarrow> page" where
  "run_listener (Listener None) p = p\<lparr>uncaught := uncaught p @ [TypeError]\<rparr>"
| "run_listener (Listener (Some submitButton)) p = set_disabled submitButton False p"

text \<open>
  A click event on element \<open>i\<close> runs the listeners registered on it, in order. What
  the browser itself does on a click (a radio button becomes checked) is no part of the
  script and is left out: \<^verbatim>\<open>checked\<close> is read by the \<^verbatim>\<open>DOMContentLoaded\<close> listener only,
  and the theorems below hold for every value of it.
\<close>

definition dispatch_click :: "nat \<Rightarrow> page \<Rightarrow> page" where
  "dispatch_click i p = fold run_listener (listeners (elements p ! i)) p"

definition focus :: "nat \<Rightarrow> page \<Rightarrow> page" where
  "focus i p = p\<lparr>calls := calls p @ [Focus i]\<rparr>"

text \<open>The method \<^verbatim>\<open>click()\<close> fires no event on a disabled control.\<close>

definition click :: "nat \<Rightarrow> page \<Rightarrow> page" where
  "click i p =
     (let p1 = p\<lparr>calls := calls p @ [Click i]\<rparr>
      in if disabled (elements p1 ! i) then p1 else dispatch_click i p1)"

section \<open>The DOMContentLoaded listener\<close>

text \<open>
  \<^verbatim>\<open>
  const submitButton = document.getElementById('submit');
  const radioButtons = document.querySelectorAll('input');
  for (const radioButton of radioButtons) {
    if (radioButton.checked) { submitButton.disabled = false; }
    radioButton.addEventListener('click', () => { submitButton.disabled = false; });
  }
  \<close>
\<close>

fun for_radioButtons :: "nat option \<Rightarrow> nat list \<Rightarrow> page \<Rightarrow> completion" where
  "for_radioButtons submitButton [] p = (None, p)"
| "for_radioButtons submitButton (radioButton # rest) p =
     (if checked (elements p ! radioButton) then
        (case submitButton of
           None \<Rightarrow> (Some TypeError, p)
         | Some s \<Rightarrow>
             for_radioButtons submitButton rest
               (addEventListener radioButton (Listener submitButton) (set_disabled s False p)))
      else
        for_radioButtons submitButton rest
          (addEventListener radioButton (Listener submitButton) p))"

definition DOMContentLoaded :: "page \<Rightarrow> completion" where
  "DOMContentLoaded p =
     (let submitButton = getElementById p ''submit'';
          radioButtons = querySelectorAll p ''input''
      in for_radioButtons submitButton radioButtons p)"

section \<open>The keydown listener\<close>

text \<open>
  \<^verbatim>\<open>parseInt(string)\<close> with no radix: leading white space is dropped, then a sign, then
  a prefix \<^verbatim>\<open>0x\<close> or \<^verbatim>\<open>0X\<close> (which makes the radix 16), and the longest run of digits of
  the radix is read; with no digit the result is \<^verbatim>\<open>NaN\<close> (\<open>None\<close>). It never throws on
  a string. A character stands for one code unit below 256; the result is the exact
  integer, which is the JavaScript number whenever it is below \<open>2^53\<close>, and compares
  with the length of a collection (below \<open>2^32\<close>) the same way beyond.
\<close>

definition isStrWhiteSpaceChar :: "char \<Rightarrow> bool" where
  "isStrWhiteSpaceChar ch = ((of_char ch :: nat) \<in> {9, 10, 11, 12, 13, 32, 160})"

definition digitValue :: "char \<Rightarrow> nat option" where
  "digitValue ch =
     (let k = (of_char ch :: nat)
      in if 48 \<le> k \<and> k \<le> 57 then Some (k - 48)
         else if 97 \<le> k \<and> k \<le> 122 then Some (k - 87)
         else if 65 \<le> k \<and> k \<le> 90 then Some (k - 55)
         else None)"

fun radixDigits :: "nat \<Rightarrow> string \<Rightarrow> nat list" where
  "radixDigits R [] = []"
| "radixDigits R (ch # S) =
     (case digitValue ch of
        None \<Rightarrow> []
      | Some d \<Rightarrow> if d < R then d # radixDigits R S else [])"

definition parseInt :: "string \<Rightarrow> int option" where
  "parseInt inputString =
     (let S0 = dropWhile isStrWhiteSpaceChar inputString;
          sign = (if take 1 S0 = ''-'' then - 1 else (1::int));
          S1 = (if take 1 S0 = ''+'' \<or> take 1 S0 = ''-'' then drop 1 S0 else S0);
          stripPrefix = (take 2 S1 = ''0x'' \<or> take 2 S1 = ''0X'');
          R = (if stripPrefix then 16 else 10);
          S2 = (if stripPrefix then drop 2 S1 else S1);
          Z = radixDigits R S2
      in if Z = [] then None
         else Some (sign * int (foldl (\<lambda>a d. a * R + d) 0 Z)))"

text \<open>
  The script reads the collection named \<^verbatim>\<open>assessment\<close> when it is loaded and keeps two
  numbers computed from it; the collection itself is live and is read again from the
  document at every event.
  \<^verbatim>\<open>
  const inputButtons = document.getElementsByName('assessment');
  const inputButtonsLength = inputButtons.length;
  const inputButtonsHalfLength = Math.floor(inputButtons.length/2);
  \<close>
\<close>

definition inputButtons :: "page \<Rightarrow> nat list" where
  "inputButtons p = getElementsByName p ''assessment''"

record script =
  inputButtonsLength :: int
  inputButtonsHalfLength :: int

definition script_load :: "page \<Rightarrow> script" where
  "script_load p =
     \<lparr>inputButtonsLength = int (length (inputButtons p)),
      inputButtonsHalfLength = int (length (inputButtons p)) div 2\<rparr>"

text \<open>
  \<^verbatim>\<open>inputButton.focus(); inputButton.click();\<close> on the value read from the collection:
  calling a method of \<^verbatim>\<open>undefined\<close> throws a TypeError before anything is done.
\<close>

definition focus_click :: "nat option \<Rightarrow> page \<Rightarrow> completion" where
  "focus_click inputButton p =
     (case inputButton of
        None \<Rightarrow> (Some TypeError, p)
      | Some b \<Rightarrow> (None, click b (focus b p)))"

text \<open>The body of the \<^verbatim>\<open>try\<close> block.\<close>

definition number_key :: "string \<Rightarrow> page \<Rightarrow> completion" where
  "number_key keyName p =
     (case parseInt keyName of
        None \<Rightarrow> (None, p)
      | Some keyNumberValue \<Rightarrow>
          if keyNumberValue > 0 \<and> keyNumberValue \<le> int (length (inputButtons p))
          then focus_click (item (inputButtons p) (keyNumberValue - 1)) p
          else (None, p))"

definition keydown :: "script \<Rightarrow> string \<Rightarrow> page \<Rightarrow> completion" where
  "keydown c keyName p =
     (if keyName = ''ArrowDown'' \<and> inputButtonsLength c > 0 then
        focus_click (item (inputButtons p) (inputButtonsHalfLength c)) p
      else if keyName = ''ArrowLeft'' \<and> inputButtonsLength c > 1 then
        focus_click (item (inputButtons p) (inputButtonsHalfLength c - 1)) p
      else if keyName = ''ArrowRight'' \<and> inputButtonsLength c > 2 then
        focus_click (item (inputButtons p) (inputButtonsHalfLength c + 1)) p
      else
        (case number_key keyName p of
           (None, p') \<Rightarrow> (None, p')
         | (Some e, p') \<Rightarrow> (None, p'\<lparr>console := console p' @ [e]\<rparr>)))"

section \<open>Events\<close>

text \<open>
  The browser runs the listeners of an event to completion; an exception that leaves a
  listener is reported and the page stays as the listener left it.
\<close>

datatype event = ContentLoaded | KeyDown string | ClickOn nat

definition report :: "completion \<Rightarrow> page" where
  "report r =
     (case r of
        (None, p) \<Rightarrow> p
      | (Some e, p) \<Rightarrow> p\<lparr>uncaught := uncaught p @ [e]\<rparr>)"

fun step :: "script \<Rightarrow> event \<Rightarrow> page \<Rightarrow> page" where
  "step c ContentLoaded p = report (DOMContentLoaded p)"
| "step c (KeyDown keyName) p = report (keydown c keyName p)"
| "step c (ClickOn i) p = dispatch_click i p"

fun run :: "script \<Rightarrow> event list \<Rightarrow> page \<Rightarrow> page" where
  "run c [] p = p"
| "run c (e # es) p = run c es (step c e p)"

text \<open>The Submit Control is enabled when it exists and its \<^verbatim>\<open>disabled\<close> flag is false.\<close>

definition submit_enabled :: "page \<Rightarrow> bool" where
  "submit_enabled p =
     (case getElementById p ''submit'' of
        None \<Rightarrow> False
      | Some s \<Rightarrow> \<not> disabled (elements p ! s))"

text \<open>
  Every handler leaves the document's elements in place and changes only flags and
  listeners: a later page \<open>p'\<close> has the elements of \<open>p\<close> with the same tag, id, name
  and \<^verbatim>\<open>checked\<close>, no element disabled that was enabled, and no listener removed.
\<close>

definition later :: "element \<Rightarrow> element \<Rightarrow> bool" where
  "later e e' \<longleftrightarrow>
     tag e' = tag e \<and> elem_id e' = elem_id e \<and> name e' = name e \<and> checked e' = checked e \<and>
     (disabled e \<or> \<not> disabled e') \<and> set (listeners e) \<subseteq> set (listeners e')"

definition keeps :: "page \<Rightarrow> page \<Rightarrow> bool" where
  "keeps p p' \<longleftrightarrow> list_all2 later (elements p) (elements p')"

text \<open>Forms of radio buttons named \<^verbatim>\<open>assessment\<close> with a disabled submit button.\<close>

definition radio :: "string \<Rightarrow> bool \<Rightarrow> element" where
  "radio n c = \<lparr>tag = ''input'', elem_id = [], name = n, checked = c, disabled = False, listeners = []\<rparr>"

definition submit_button :: element where
  "submit_button = \<lparr>tag = ''button'', elem_id = ''submit'', name = [], checked = False, disabled = True, listeners = []\<rparr>"

definition page_of :: "element list \<Rightarrow> page" where
  "page_of es = \<lparr>elements = es, calls = [], console = [], uncaught = []\<rparr>"

definition form5 :: page where
  "form5 =
     page_of [radio ''assessment'' False, radio ''assessment'' False, radio ''assessment'' False,
       radio ''assessment'' False, radio ''assessment'' False, submit_button]"

definition form1 :: page where
  "form1 = page_of [radio ''assessment'' False, submit_button]"

definition form0 :: page where
  "form0 = page_of [submit_button]"

text \<open>A form whose second input, not of the \<^verbatim>\<open>assessment\<close> group, is checked.\<close>

definition form_checked :: page where
  "form_checked = page_of [radio ''assessment'' False, radio ''consent'' True, submit_button]"

text \<open>A page of one radio button, checked or not, and no element with id \<^verbatim>\<open>submit\<close>.\<close>

definition no_submit :: "bool \<Rightarrow> page" where
  "no_submit c = page_of [radio ''assessment'' c]"

section \<open>Pages that keep their elements\<close>

lemma later_refl: "later e e"
  by (simp add: later_def)

lemma later_trans: "later a b \<Longrightarrow> later b c \<Longrightarrow> later a c"
  by (auto simp: later_def)

lemma keeps_refl: "keeps p p"
  by (simp add: keeps_def list_all2_refl later_refl)

lemma keeps_trans: "keeps p q \<Longrightarrow> keeps q r \<Longrightarrow> keeps p r"
  unfolding keeps_def
  using list_all2_trans [of later later later] later_trans by blast

lemma keeps_same_elements: "elements q = elements p \<Longrightarrow> keeps p q"
  by (simp add: keeps_def list_all2_refl later_refl)

lemma keeps_update:
  assumes "j < length (elements p) \<Longrightarrow> later (elements p ! j) e"
  shows "keeps p (p\<lparr>elements := (elements p)[j := e]\<rparr>)"
proof -
  have "later (elements p ! i) ((elements p)[j := e] ! i)" if "i < length (elements p)" for i
    using that assms by (cases "i = j") (simp_all add: later_refl)
  then show ?thesis
    by (simp add: keeps_def list_all2_conv_all_nth)
qed

lemma keeps_set_disabled: "keeps p (set_disabled j False p)"
  unfolding set_disabled_def by (rule keeps_update) (simp add: later_def)

lemma keeps_addEventListener: "keeps p (addEventListener j l p)"
  unfolding addEventListener_def by (rule keeps_update) (auto simp: later_def)

lemma keeps_length: "keeps p q \<Longrightarrow> length (elements q) = length (elements p)"
  by (simp add: keeps_def list_all2_lengthD)

lemma keeps_nth: "keeps p q \<Longrightarrow> i < length (elements p) \<Longrightarrow> later (elements p ! i) (elements q ! i)"
  by (simp add: keeps_def list_all2_nthD)

lemma keeps_getElementById: "keeps p q \<Longrightarrow> getElementById q s = getElementById p s"
  unfolding getElementById_def
  by (auto simp: keeps_length later_def dest: keeps_nth intro!: find_cong)

lemma keeps_querySelectorAll: "keeps p q \<Longrightarrow> querySelectorAll q t = querySelectorAll p t"
  unfolding querySelectorAll_def
  by (auto simp: keeps_length later_def dest: keeps_nth intro!: filter_cong)

lemma keeps_getElementsByName: "keeps p q \<Longrightarrow> getElementsByName q s = getElementsByName p s"
  unfolding getElementsByName_def
  by (auto simp: keeps_length later_def dest: keeps_nth intro!: filter_cong)

lemma keeps_inputButtons: "keeps p q \<Longrightarrow> inputButtons q = inputButtons p"
  by (simp add: inputButtons_def keeps_getElementsByName)

lemma getElementById_less: "getElementById p s = Some j \<Longrightarrow> j < length (elements p)"
  by (auto simp: getElementById_def find_Some_iff)

lemma querySelectorAll_less: "i \<in> set (querySelectorAll p t) \<Longrightarrow> i < length (elements p)"
  by (simp add: querySelectorAll_def)

lemma inputButtons_less: "i \<in> set (inputButtons p) \<Longrightarrow> i < length (elements p)"
  by (simp add: inputButtons_def getElementsByName_def)

lemma keeps_submit_enabled: "keeps p q \<Longrightarrow> submit_enabled p \<Longrightarrow> submit_enabled q"
  by (auto simp: submit_enabled_def keeps_getElementById later_def
      split: option.splits dest: getElementById_less keeps_nth)

section \<open>Listeners\<close>

lemma keeps_run_listener: "keeps p (run_listener l p)"
  by (cases "(l, p)" rule: run_listener.cases) (simp_all add: keeps_set_disabled keeps_same_elements)

lemma keeps_fold_run_listener: "keeps p (fold run_listener ls p)"
  by (induction ls arbitrary: p) (auto intro: keeps_refl keeps_trans keeps_run_listener)

lemma keeps_dispatch_click: "keeps p (dispatch_click i p)"
  by (simp add: dispatch_click_def keeps_fold_run_listener)

lemma calls_run_listener: "calls (run_listener l p) = calls p"
  by (cases "(l, p)" rule: run_listener.cases) (simp_all add: set_disabled_def)

lemma console_run_listener: "console (run_listener l p) = console p"
  by (cases "(l, p)" rule: run_listener.cases) (simp_all add: set_disabled_def)

lemma calls_dispatch_click: "calls (dispatch_click i p) = calls p"
proof -
  have "calls (fold run_listener ls q) = calls q" for ls q
    by (induction ls arbitrary: q) (simp_all add: calls_run_listener)
  then show ?thesis by (simp add: dispatch_click_def)
qed

lemma console_dispatch_click: "console (dispatch_click i p) = console p"
proof -
  have "console (fold run_listener ls q) = console q" for ls q
    by (induction ls arbitrary: q) (simp_all add: console_run_listener)
  then show ?thesis by (simp add: dispatch_click_def)
qed

lemma keeps_focus: "keeps p (focus i p)"
  by (simp add: focus_def keeps_same_elements)

lemma keeps_click: "keeps p (click i p)"
proof -
  have "keeps p (p\<lparr>calls := calls p @ [Click i]\<rparr>)"
    by (simp add: keeps_same_elements)
  then show ?thesis
    by (auto simp: click_def Let_def intro: keeps_trans keeps_dispatch_click)
qed

lemma calls_click_focus: "calls (click b (focus b p)) = calls p @ [Focus b, Click b]"
  by (simp add: click_def focus_def Let_def calls_dispatch_click)

lemma console_click_focus: "console (click b (focus b p)) = console p"
  by (simp add: click_def focus_def Let_def console_dispatch_click)

lemma keeps_focus_click: "keeps p (snd (focus_click x p))"
  by (cases x) (auto simp: focus_click_def intro: keeps_refl keeps_trans keeps_focus keeps_click)

section \<open>The keydown listener: the four branches\<close>

lemma item_nth: "i < length xs \<Longrightarrow> item xs (int i) = Some (xs ! i)"
  by (simp add: item_def)

lemma item_member: "item xs i = Some b \<Longrightarrow> b \<in> set xs"
  by (auto simp: item_def split: if_splits)

lemma half_less: "0 < n \<Longrightarrow> n div 2 < (n::nat)"
  by simp

lemma half_pred_less: "1 < n \<Longrightarrow> n div 2 - 1 < (n::nat)"
  by arith

lemma half_succ_less: "2 < n \<Longrightarrow> n div 2 + 1 < (n::nat)"
  by arith

lemma script_load_length: "inputButtonsLength (script_load p) = int (length (inputButtons p))"
  by (simp add: script_load_def)

lemma script_load_half: "inputButtonsHalfLength (script_load p) = int (length (inputButtons p) div 2)"
  by (simp add: script_load_def zdiv_int)

lemma script_load_half_pred:
  "1 < length (inputButtons p) \<Longrightarrow>
   inputButtonsHalfLength (script_load p) - 1 = int (length (inputButtons p) div 2 - 1)"
  by (simp add: script_load_half of_nat_diff Suc_le_eq)

lemma script_load_half_succ:
  "inputButtonsHalfLength (script_load p) + 1 = int (length (inputButtons p) div 2 + 1)"
  by (simp add: script_load_half)

lemma keydown_ArrowDown:
  assumes "inputButtons p = inputButtons p0" and "0 < length (inputButtons p0)"
  shows "keydown (script_load p0) ''ArrowDown'' p =
         (None, click (inputButtons p ! (length (inputButtons p0) div 2))
                  (focus (inputButtons p ! (length (inputButtons p0) div 2)) p))"
proof -
  have "item (inputButtons p) (inputButtonsHalfLength (script_load p0)) =
        Some (inputButtons p ! (length (inputButtons p0) div 2))"
    unfolding script_load_half using assms by (intro item_nth) simp
  then show ?thesis
    using assms by (simp add: keydown_def script_load_length focus_click_def)
qed

lemma keydown_ArrowLeft:
  assumes "inputButtons p = inputButtons p0" and "1 < length (inputButtons p0)"
  shows "keydown (script_load p0) ''ArrowLeft'' p =
         (None, click (inputButtons p ! (length (inputButtons p0) div 2 - 1))
                  (focus (inputButtons p ! (length (inputButtons p0) div 2 - 1)) p))"
proof -
  have "item (inputButtons p) (inputButtonsHalfLength (script_load p0) - 1) =
        Some (inputButtons p ! (length (inputButtons p0) div 2 - 1))"
    unfolding script_load_half_pred [OF assms(2)]
    using assms half_pred_less [OF assms(2)] by (intro item_nth) simp
  then show ?thesis
    using assms by (simp add: keydown_def script_load_length focus_click_def)
qed

lemma keydown_ArrowRight:
  assumes "inputButtons p = inputButtons p0" and "2 < length (inputButtons p0)"
  shows "keydown (script_load p0) ''ArrowRight'' p =
         (None, click (inputButtons p ! (length (inputButtons p0) div 2 + 1))
                  (focus (inputButtons p ! (length (inputButtons p0) div 2 + 1)) p))"
proof -
  have "item (inputButtons p) (inputButtonsHalfLength (script_load p0) + 1) =
        Some (inputButtons p ! (length (inputButtons p0) div 2 + 1))"
    unfolding script_load_half_succ
    using assms half_succ_less [OF assms(2)] by (intro item_nth) simp
  then show ?thesis
    using assms by (simp add: keydown_def script_load_length focus_click_def)
qed

lemma number_key_in_range:
  assumes "parseInt keyName = Some N" and "0 < N" and "N \<le> int (length (inputButtons p))"
  shows "number_key keyName p =
         (None, click (inputButtons p ! nat (N - 1)) (focus (inputButtons p ! nat (N - 1)) p))"
  using assms by (simp add: number_key_def item_def focus_click_def)

lemma number_key_out_of_range:
  assumes "parseInt keyName = Some N" and "\<not> (0 < N \<and> N \<le> int (length (inputButtons p)))"
  shows "number_key keyName p = (None, p)"
  using assms by (auto simp: number_key_def)

lemma number_key_NaN: "parseInt keyName = None \<Longrightarrow> number_key keyName p = (None, p)"
  by (simp add: number_key_def)

lemma number_key_completes: "fst (number_key keyName p) = None"
  by (simp add: number_key_def item_def focus_click_def split: option.splits)

lemma keydown_falls_through:
  assumes "\<not> (keyName = ''ArrowDown'' \<and> inputButtonsLength c > 0)"
      and "\<not> (keyName = ''ArrowLeft'' \<and> inputButtonsLength c > 1)"
      and "\<not> (keyName = ''ArrowRight'' \<and> inputButtonsLength c > 2)"
  shows "keydown c keyName p = number_key keyName p"
proof -
  obtain x q where r: "number_key keyName p = (x, q)"
    by (cases "number_key keyName p")
  with number_key_completes [of keyName p] have "x = None" by simp
  with r assms show ?thesis by (auto simp: keydown_def)
qed

lemma parseInt_ArrowDown: "parseInt ''ArrowDown'' = None"
  by (simp add: parseInt_def isStrWhiteSpaceChar_def digitValue_def)

lemma parseInt_ArrowLeft: "parseInt ''ArrowLeft'' = None"
  by (simp add: parseInt_def isStrWhiteSpaceChar_def digitValue_def)

lemma parseInt_ArrowRight: "parseInt ''ArrowRight'' = None"
  by (simp add: parseInt_def isStrWhiteSpaceChar_def digitValue_def)

lemma parseInt_Shift: "parseInt ''Shift'' = None"
  by (simp add: parseInt_def isStrWhiteSpaceChar_def digitValue_def)

lemma parseInt_digits: "parseInt ''3'' = Some 3" "parseInt ''9'' = Some 9" "parseInt ''0'' = Some 0"
  by (simp_all add: parseInt_def isStrWhiteSpaceChar_def digitValue_def)

lemma inputButtons_form5: "inputButtons form5 = [0, 1, 2, 3, 4]"
  by (simp add: inputButtons_def getElementsByName_def form5_def page_of_def radio_def
      submit_button_def upt_rec)

lemma inputButtons_form1: "inputButtons form1 = [0]"
  by (simp add: inputButtons_def getElementsByName_def form1_def page_of_def radio_def
      submit_button_def upt_rec)

lemma inputButtons_form0: "inputButtons form0 = []"
  by (simp add: inputButtons_def getElementsByName_def form0_def page_of_def radio_def
      submit_button_def upt_rec)

section \<open>What a later page keeps\<close>

lemma keeps_enabled:
  "keeps p q \<Longrightarrow> j < length (elements p) \<Longrightarrow> \<not> disabled (elements p ! j) \<Longrightarrow>
   \<not> disabled (elements q ! j)"
  by (drule (1) keeps_nth) (simp add: later_def)

lemma keeps_checked:
  "keeps p q \<Longrightarrow> j < length (elements p) \<Longrightarrow> checked (elements q ! j) = checked (elements p ! j)"
  by (drule (1) keeps_nth) (simp add: later_def)

lemma keeps_listener:
  "keeps p q \<Longrightarrow> j < length (elements p) \<Longrightarrow> l \<in> set (listeners (elements p ! j)) \<Longrightarrow>
   l \<in> set (listeners (elements q ! j))"
  by (drule (1) keeps_nth) (auto simp: later_def)

lemma set_disabled_enables:
  "s < length (elements p) \<Longrightarrow> \<not> disabled (elements (set_disabled s False p) ! s)"
  by (simp add: set_disabled_def)

lemma addEventListener_adds:
  "i < length (elements p) \<Longrightarrow> l \<in> set (listeners (elements (addEventListener i l p) ! i))"
  by (simp add: addEventListener_def)

lemma fold_run_listener_enables:
  "Listener (Some s) \<in> set ls \<Longrightarrow> s < length (elements p) \<Longrightarrow>
   \<not> disabled (elements (fold run_listener ls p) ! s)"
proof (induction ls arbitrary: p)
  case Nil
  then show ?case by simp
next
  case (Cons l ls)
  show ?case
  proof (cases "l = Listener (Some s)")
    case True
    have "\<not> disabled (elements (run_listener l p) ! s)"
      using True Cons.prems(2) by (simp add: set_disabled_enables)
    moreover have "s < length (elements (run_listener l p))"
      using Cons.prems(2) by (simp add: keeps_length [OF keeps_run_listener])
    ultimately show ?thesis
      using keeps_enabled [OF keeps_fold_run_listener] by simp
  next
    case False
    with Cons.prems(1) have "Listener (Some s) \<in> set ls" by simp
    moreover have "s < length (elements (run_listener l p))"
      using Cons.prems(2) by (simp add: keeps_length [OF keeps_run_listener])
    ultimately show ?thesis
      using Cons.IH by simp
  qed
qed

lemma dispatch_click_enables:
  "Listener (Some s) \<in> set (listeners (elements p ! i)) \<Longrightarrow> s < length (elements p) \<Longrightarrow>
   \<not> disabled (elements (dispatch_click i p) ! s)"
  by (simp add: dispatch_click_def fold_run_listener_enables)

lemma uncaught_fold_run_listener:
  "uncaught (fold run_listener ls p) =
   uncaught p @ replicate (length (filter (\<lambda>l. l = Listener None) ls)) TypeError"
proof (induction ls arbitrary: p)
  case Nil
  then show ?case by simp
next
  case (Cons l ls)
  show ?case
  proof (cases l)
    case (Listener x)
    then show ?thesis
      by (cases x) (simp_all add: Cons.IH set_disabled_def replicate_app_Cons_same)
  qed
qed

lemma uncaught_dispatch_click:
  "uncaught (dispatch_click i p) =
   uncaught p @ replicate (length (filter (\<lambda>l. l = Listener None) (listeners (elements p ! i)))) TypeError"
  by (simp add: dispatch_click_def uncaught_fold_run_listener)

lemma dispatch_click_null_listener:
  assumes "Listener None \<in> set (listeners (elements p ! i))"
  shows "\<exists>k. uncaught (dispatch_click i p) = uncaught p @ replicate (Suc k) TypeError"
proof -
  have "filter (\<lambda>l. l = Listener None) (listeners (elements p ! i)) \<noteq> []"
    using assms by (simp add: filter_empty_conv)
  then obtain k where
    "length (filter (\<lambda>l. l = Listener None) (listeners (elements p ! i))) = Suc k"
    by (cases "filter (\<lambda>l. l = Listener None) (listeners (elements p ! i))") simp_all
  then show ?thesis
    by (simp only: uncaught_dispatch_click) blast
qed

section \<open>The loop over the inputs\<close>

lemma keeps_for_radioButtons: "keeps p (snd (for_radioButtons sb rs p))"
proof (induction rs arbitrary: p)
  case Nil
  then show ?case by (simp add: keeps_refl)
next
  case (Cons r rs)
  have a: "keeps p (addEventListener r (Listener sb) p)"
    by (rule keeps_addEventListener)
  have b: "keeps p (addEventListener r (Listener sb) (set_disabled s False p))" for s
    by (rule keeps_trans [OF keeps_set_disabled keeps_addEventListener])
  show ?case
    using keeps_trans [OF a Cons.IH] keeps_trans [OF b Cons.IH]
    by (auto simp: keeps_refl split: option.splits)
qed

lemma for_radioButtons_completes: "fst (for_radioButtons (Some s) rs p) = None"
  by (induction rs arbitrary: p) simp_all

lemma for_radioButtons_null:
  assumes "\<forall>i\<in>set rs. i < length (elements p)"
  shows "fst (for_radioButtons None rs p) =
         (if \<exists>i\<in>set rs. checked (elements p ! i) then Some TypeError else None)"
  using assms
proof (induction rs arbitrary: p)
  case Nil
  then show ?case by simp
next
  case (Cons r rs)
  let ?q = "addEventListener r (Listener None) p"
  have k: "keeps p ?q" by (rule keeps_addEventListener)
  have len: "\<forall>i\<in>set rs. i < length (elements ?q)"
    using Cons.prems by (simp add: keeps_length [OF k])
  have chk: "(\<exists>i\<in>set rs. checked (elements ?q ! i)) = (\<exists>i\<in>set rs. checked (elements p ! i))"
    using Cons.prems by (auto simp: keeps_checked [OF k])
  show ?case
    using Cons.IH [OF len] chk by simp
qed

lemma for_radioButtons_listens:
  assumes "fst (for_radioButtons sb rs p) = None" and "i \<in> set rs" and "i < length (elements p)"
  shows "Listener sb \<in> set (listeners (elements (snd (for_radioButtons sb rs p)) ! i))"
  using assms
proof (induction rs arbitrary: p)
  case Nil
  then show ?case by simp
next
  case (Cons r rs)
  define q where "q =
    (if checked (elements p ! r)
     then (case sb of None \<Rightarrow> p | Some s \<Rightarrow> addEventListener r (Listener sb) (set_disabled s False p))
     else addEventListener r (Listener sb) p)"
  have thrown: "\<not> (checked (elements p ! r) \<and> sb = None)"
    using Cons.prems(1) by (auto split: option.splits)
  then have unfold: "for_radioButtons sb (r # rs) p = for_radioButtons sb rs q"
    by (auto simp: q_def split: option.splits)
  have k: "keeps p q"
    unfolding q_def
    by (auto split: option.splits
        intro: keeps_refl keeps_addEventListener keeps_trans [OF keeps_set_disabled keeps_addEventListener])
  have len: "i < length (elements q)"
    using Cons.prems(3) by (simp add: keeps_length [OF k])
  show ?case
  proof (cases "i \<in> set rs")
    case True
    then show ?thesis
      using Cons.IH [of q] Cons.prems(1) len by (simp only: unfold)
  next
    case False
    with Cons.prems(2) have "i = r" by simp
    have "Listener sb \<in> set (listeners (elements q ! i))"
      using thrown Cons.prems(3) \<open>i = r\<close>
      by (auto simp: q_def addEventListener_def set_disabled_def split: option.splits)
    then show ?thesis
      using keeps_listener [OF keeps_for_radioButtons len] by (simp only: unfold)
  qed
qed

lemma for_radioButtons_enables:
  assumes "i \<in> set rs" and "checked (elements p ! i)"
      and "i < length (elements p)" and "s < length (elements p)"
  shows "\<not> disabled (elements (snd (for_radioButtons (Some s) rs p)) ! s)"
  using assms
proof (induction rs arbitrary: p)
  case Nil
  then show ?case by simp
next
  case (Cons r rs)
  show ?case
  proof (cases "checked (elements p ! r)")
    case True
    let ?q = "addEventListener r (Listener (Some s)) (set_disabled s False p)"
    have k: "keeps (set_disabled s False p) ?q" by (rule keeps_addEventListener)
    have s: "s < length (elements (set_disabled s False p))"
      using Cons.prems(4) by (simp add: keeps_length [OF keeps_set_disabled])
    have "\<not> disabled (elements ?q ! s)"
      using keeps_enabled [OF k s] set_disabled_enables [OF Cons.prems(4)] by simp
    moreover have "s < length (elements ?q)"
      using s by (simp add: keeps_length [OF k])
    ultimately show ?thesis
      using True keeps_enabled [OF keeps_for_radioButtons] by simp
  next
    case False
    let ?q = "addEventListener r (Listener (Some s)) p"
    have k: "keeps p ?q" by (rule keeps_addEventListener)
    from False Cons.prems(1,2) have "i \<in> set rs" by auto
    moreover have "checked (elements ?q ! i)"
      using Cons.prems(2,3) by (simp add: keeps_checked [OF k])
    moreover have "i < length (elements ?q)" "s < length (elements ?q)"
      using Cons.prems(3,4) by (simp_all add: keeps_length [OF k])
    ultimately show ?thesis
      using False Cons.IH [of ?q] by simp
  qed
qed

section \<open>Every event keeps the elements\<close>

lemma keeps_DOMContentLoaded: "keeps p (snd (DOMContentLoaded p))"
  by (simp add: DOMContentLoaded_def keeps_for_radioButtons)

lemma keeps_number_key: "keeps p (snd (number_key keyName p))"
  by (simp add: number_key_def keeps_refl keeps_focus_click split: option.splits)

lemma keeps_keydown: "keeps p (snd (keydown c keyName p))"
proof (cases "(keyName = ''ArrowDown'' \<and> inputButtonsLength c > 0) \<or>
    (keyName = ''ArrowLeft'' \<and> inputButtonsLength c > 1) \<or>
    (keyName = ''ArrowRight'' \<and> inputButtonsLength c > 2)")
  case True
  then show ?thesis
    by (auto simp: keydown_def keeps_focus_click)
next
  case False
  then have "keydown c keyName p = number_key keyName p"
    by (intro keydown_falls_through) auto
  then show ?thesis by (simp add: keeps_number_key)
qed

lemma keeps_report: "keeps (snd r) (report r)"
  by (cases r) (auto simp: report_def keeps_refl keeps_same_elements split: option.splits)

lemma keeps_step: "keeps p (step c e p)"
proof (cases e)
  case ContentLoaded
  then show ?thesis
    using keeps_trans [OF keeps_DOMContentLoaded keeps_report] by simp
next
  case (KeyDown keyName)
  then show ?thesis
    using keeps_trans [OF keeps_keydown keeps_report] by simp
next
  case (ClickOn i)
  then show ?thesis by (simp add: keeps_dispatch_click)
qed

lemma keeps_run: "keeps p (run c es p)"
  by (induction es arbitrary: p) (auto intro: keeps_refl keeps_trans keeps_step)

text \<open>No event of the script changes the collection the keydown listener reads.\<close>

lemma inputButtons_run: "inputButtons (run c es p) = inputButtons p"
  by (rule keeps_inputButtons [OF keeps_run])

section \<open>The keyboard shortcuts\<close>

text \<open>
  C1. The script is loaded on the page \<open>p0\<close> and a key is pressed on a page \<open>p\<close> whose
  collection named \<^verbatim>\<open>assessment\<close> is the one the script has read, of size \<open>n\<close>. Then
  ArrowDown with \<open>n > 0\<close> calls \<^verbatim>\<open>focus()\<close> and then \<^verbatim>\<open>click()\<close> on the element at index
  \<open>n div 2\<close> of the collection, ArrowLeft with \<open>n > 1\<close> on the one at index \<open>n div 2 - 1\<close>,
  and ArrowRight with \<open>n > 2\<close> on the one at index \<open>n div 2 + 1\<close>; for \<open>n = 5\<close> these are
  the indices 2, 1 and 3. The two calls are what the handler adds to the calls made.
\<close>

theorem keydown_arrow_keys:
  assumes "inputButtons p = inputButtons p0" and "n = length (inputButtons p0)"
  shows "(0 < n \<longrightarrow>
            keydown (script_load p0) ''ArrowDown'' p =
            (None, click (inputButtons p ! (n div 2)) (focus (inputButtons p ! (n div 2)) p))) \<and>
         (1 < n \<longrightarrow>
            keydown (script_load p0) ''ArrowLeft'' p =
            (None, click (inputButtons p ! (n div 2 - 1)) (focus (inputButtons p ! (n div 2 - 1)) p))) \<and>
         (2 < n \<longrightarrow>
            keydown (script_load p0) ''ArrowRight'' p =
            (None, click (inputButtons p ! (n div 2 + 1)) (focus (inputButtons p ! (n div 2 + 1)) p))) \<and>
         (n = 5 \<longrightarrow>
            keydown (script_load p0) ''ArrowDown'' p =
              (None, click (inputButtons p ! 2) (focus (inputButtons p ! 2) p)) \<and>
            keydown (script_load p0) ''ArrowLeft'' p =
              (None, click (inputButtons p ! 1) (focus (inputButtons p ! 1) p)) \<and>
            keydown (script_load p0) ''ArrowRight'' p =
              (None, click (inputButtons p ! 3) (focus (inputButtons p ! 3) p))) \<and>
         (\<forall>b. calls (click b (focus b p)) = calls p @ [Focus b, Click b])"
proof (intro conjI impI allI)
  show "keydown (script_load p0) ''ArrowDown'' p =
        (None, click (inputButtons p ! (n div 2)) (focus (inputButtons p ! (n div 2)) p))"
    if "0 < n"
    using that assms keydown_ArrowDown [of p p0] by simp
  show "keydown (script_load p0) ''ArrowLeft'' p =
        (None, click (inputButtons p ! (n div 2 - 1)) (focus (inputButtons p ! (n div 2 - 1)) p))"
    if "1 < n"
    using that assms keydown_ArrowLeft [of p p0] by simp
  show "keydown (script_load p0) ''ArrowRight'' p =
        (None, click (inputButtons p ! (n div 2 + 1)) (focus (inputButtons p ! (n div 2 + 1)) p))"
    if "2 < n"
    using that assms keydown_ArrowRight [of p p0] by simp
  show "keydown (script_load p0) ''ArrowDown'' p =
        (None, click (inputButtons p ! 2) (focus (inputButtons p ! 2) p))"
    if "n = 5"
    using that assms keydown_ArrowDown [of p p0] by simp
  show "keydown (script_load p0) ''ArrowLeft'' p =
        (None, click (inputButtons p ! 1) (focus (inputButtons p ! 1) p))"
    if "n = 5"
    using that assms keydown_ArrowLeft [of p p0] by simp
  show "keydown (script_load p0) ''ArrowRight'' p =
        (None, click (inputButtons p ! 3) (focus (inputButtons p ! 3) p))"
    if "n = 5"
    using that assms keydown_ArrowRight [of p p0] by simp
  show "calls (click b (focus b p)) = calls p @ [Focus b, Click b]" for b
    by (rule calls_click_focus)
qed

theorem keydown_arrow_keys_witness:
  "inputButtons form5 = inputButtons form5 \<and> 5 = length (inputButtons form5) \<and>
   keydown (script_load form5) ''ArrowDown'' form5 = (None, click 2 (focus 2 form5)) \<and>
   keydown (script_load form5) ''ArrowLeft'' form5 = (None, click 1 (focus 1 form5)) \<and>
   keydown (script_load form5) ''ArrowRight'' form5 = (None, click 3 (focus 3 form5)) \<and>
   calls (click 2 (focus 2 form5)) = calls form5 @ [Focus 2, Click 2]"
proof -
  have n: "5 = length (inputButtons form5)"
    by (simp add: inputButtons_form5)
  show ?thesis
    using n keydown_arrow_keys [OF refl n] by (simp add: inputButtons_form5)
qed

text \<open>
  C2. For a key that is none of the three arrow keys and whose name \<^verbatim>\<open>parseInt\<close> reads as
  the integer \<open>N\<close>: when \<open>0 < N\<close> and \<open>N\<close> is at most the length of the collection named
  \<^verbatim>\<open>assessment\<close>, the handler calls \<^verbatim>\<open>focus()\<close> and then \<^verbatim>\<open>click()\<close> on the element at index
  \<open>N - 1\<close>; otherwise it completes and leaves the page as it was.
\<close>

theorem keydown_number_keys:
  assumes "keyName \<notin> {''ArrowDown'', ''ArrowLeft'', ''ArrowRight''}"
      and "parseInt keyName = Some N"
  shows "(0 < N \<and> N \<le> int (length (inputButtons p)) \<longrightarrow>
            keydown c keyName p =
            (None, click (inputButtons p ! nat (N - 1)) (focus (inputButtons p ! nat (N - 1)) p)) \<and>
            calls (snd (keydown c keyName p)) =
            calls p @ [Focus (inputButtons p ! nat (N - 1)), Click (inputButtons p ! nat (N - 1))]) \<and>
         (\<not> (0 < N \<and> N \<le> int (length (inputButtons p))) \<longrightarrow> keydown c keyName p = (None, p))"
proof -
  have k: "keydown c keyName p = number_key keyName p"
    using assms(1) by (intro keydown_falls_through) simp_all
  show ?thesis
    using number_key_in_range [OF assms(2), of p] number_key_out_of_range [OF assms(2), of p]
    by (auto simp: k calls_click_focus)
qed

theorem keydown_number_keys_witness:
  "''3'' \<notin> {''ArrowDown'', ''ArrowLeft'', ''ArrowRight''} \<and> parseInt ''3'' = Some 3 \<and>
   parseInt ''9'' = Some 9 \<and> parseInt ''0'' = Some 0 \<and>
   keydown (script_load form5) ''3'' form5 = (None, click 2 (focus 2 form5)) \<and>
   keydown (script_load form5) ''9'' form5 = (None, form5) \<and>
   keydown (script_load form5) ''0'' form5 = (None, form5)"
proof -
  have a: "''3'' \<notin> {''ArrowDown'', ''ArrowLeft'', ''ArrowRight''}"
    and b: "''9'' \<notin> {''ArrowDown'', ''ArrowLeft'', ''ArrowRight''}"
    and c: "''0'' \<notin> {''ArrowDown'', ''ArrowLeft'', ''ArrowRight''}"
    by simp_all
  show ?thesis
    using a keydown_number_keys [OF a parseInt_digits(1), of form5 "script_load form5"]
      keydown_number_keys [OF b parseInt_digits(2), of form5 "script_load form5"]
      keydown_number_keys [OF c parseInt_digits(3), of form5 "script_load form5"]
    by (simp add: inputButtons_form5 parseInt_digits)
qed

text \<open>
  C4. The script is loaded on the page \<open>p0\<close> and a key is pressed on a page \<open>p\<close> with the
  same collection named \<^verbatim>\<open>assessment\<close>. With one element in it, ArrowDown focuses and
  clicks the element at index 0, and ArrowLeft and ArrowRight complete without a call
  and leave the page as it was. With no element in it, every key (so every arrow key and
  every digit key) does.
\<close>

theorem keydown_small_groups:
  assumes "inputButtons p = inputButtons p0"
  shows "(length (inputButtons p0) = 1 \<longrightarrow>
            keydown (script_load p0) ''ArrowDown'' p =
              (None, click (inputButtons p ! 0) (focus (inputButtons p ! 0) p)) \<and>
            keydown (script_load p0) ''ArrowLeft'' p = (None, p) \<and>
            keydown (script_load p0) ''ArrowRight'' p = (None, p)) \<and>
         (length (inputButtons p0) = 0 \<longrightarrow>
            (\<forall>keyName. keydown (script_load p0) keyName p = (None, p)))"
proof (intro conjI impI allI)
  assume one: "length (inputButtons p0) = 1"
  show "keydown (script_load p0) ''ArrowDown'' p =
        (None, click (inputButtons p ! 0) (focus (inputButtons p ! 0) p))"
    using keydown_ArrowDown [OF assms] one by simp
  have "keydown (script_load p0) ''ArrowLeft'' p = number_key ''ArrowLeft'' p"
    by (intro keydown_falls_through) (simp_all add: script_load_length one)
  then show "keydown (script_load p0) ''ArrowLeft'' p = (None, p)"
    by (simp add: number_key_NaN parseInt_ArrowLeft)
  have "keydown (script_load p0) ''ArrowRight'' p = number_key ''ArrowRight'' p"
    by (intro keydown_falls_through) (simp_all add: script_load_length one)
  then show "keydown (script_load p0) ''ArrowRight'' p = (None, p)"
    by (simp add: number_key_NaN parseInt_ArrowRight)
next
  fix keyName
  assume none: "length (inputButtons p0) = 0"
  have "keydown (script_load p0) keyName p = number_key keyName p"
    by (intro keydown_falls_through) (simp_all add: script_load_length none)
  moreover have "number_key keyName p = (None, p)"
    using none assms by (auto simp: number_key_def split: option.splits)
  ultimately show "keydown (script_load p0) keyName p = (None, p)"
    by simp
qed

theorem keydown_small_groups_witness:
  "inputButtons form1 = inputButtons form1 \<and> length (inputButtons form1) = 1 \<and>
   keydown (script_load form1) ''ArrowDown'' form1 = (None, click 0 (focus 0 form1)) \<and>
   keydown (script_load form1) ''ArrowLeft'' form1 = (None, form1) \<and>
   keydown (script_load form1) ''ArrowRight'' form1 = (None, form1) \<and>
   length (inputButtons form0) = 0 \<and>
   keydown (script_load form0) ''ArrowDown'' form0 = (None, form0) \<and>
   keydown (script_load form0) ''1'' form0 = (None, form0)"
  using keydown_small_groups [of form1 form1] keydown_small_groups [of form0 form0]
  by (simp add: inputButtons_form1 inputButtons_form0)

text \<open>
  C5, as amended. For a key that is none of the three arrow keys and whose name
  \<^verbatim>\<open>parseInt\<close> does not read as a number, \<^verbatim>\<open>parseInt\<close> gives \<^verbatim>\<open>NaN\<close> and throws nothing:
  the \<^verbatim>\<open>try\<close> block completes with the page as it was, so nothing is caught and nothing
  is written to the console, and the handler completes. In fact no key at all makes the
  handler write to the console.
\<close>

theorem keydown_parse_failure:
  assumes "keyName \<notin> {''ArrowDown'', ''ArrowLeft'', ''ArrowRight''}"
      and "parseInt keyName = None"
  shows "number_key keyName p = (None, p) \<and>
         fst (keydown c keyName p) = None \<and>
         console (snd (keydown c keyName p)) = console p \<and>
         uncaught (snd (keydown c keyName p)) = uncaught p \<and>
         (\<forall>c' keyName' p'. console (snd (keydown c' keyName' p')) = console p')"
proof (intro conjI allI)
  show n: "number_key keyName p = (None, p)"
    by (rule number_key_NaN [OF assms(2)])
  have k: "keydown c keyName p = number_key keyName p"
    using assms(1) by (intro keydown_falls_through) simp_all
  show "fst (keydown c keyName p) = None"
    and "console (snd (keydown c keyName p)) = console p"
    and "uncaught (snd (keydown c keyName p)) = uncaught p"
    by (simp_all add: k n)
  show "console (snd (keydown c' keyName' p')) = console p'" for c' keyName' p'
  proof (cases "(keyName' = ''ArrowDown'' \<and> inputButtonsLength c' > 0) \<or>
      (keyName' = ''ArrowLeft'' \<and> inputButtonsLength c' > 1) \<or>
      (keyName' = ''ArrowRight'' \<and> inputButtonsLength c' > 2)")
    case True
    then show ?thesis
      by (auto simp: keydown_def focus_click_def console_click_focus split: option.splits)
  next
    case False
    then have "keydown c' keyName' p' = number_key keyName' p'"
      by (intro keydown_falls_through) auto
    then show ?thesis
      by (simp add: number_key_def focus_click_def console_click_focus split: option.splits)
  qed
qed

theorem keydown_parse_failure_witness:
  "''Shift'' \<notin> {''ArrowDown'', ''ArrowLeft'', ''ArrowRight''} \<and> parseInt ''Shift'' = None \<and>
   number_key ''Shift'' form5 = (None, form5) \<and>
   fst (keydown (script_load form5) ''Shift'' form5) = None \<and>
   console (snd (keydown (script_load form5) ''Shift'' form5)) = console form5"
proof -
  have a: "''Shift'' \<notin> {''ArrowDown'', ''ArrowLeft'', ''ArrowRight''}"
    by simp
  show ?thesis
    using a parseInt_Shift keydown_parse_failure [OF a parseInt_Shift, of form5 "script_load form5"]
    by simp
qed

text \<open>
  The claim C5 as it is written fails: the key Shift, on the form of five radio buttons,
  leaves the console empty.
\<close>

theorem parse_failure_logged_counterexample:
  "''Shift'' \<notin> {''ArrowDown'', ''ArrowLeft'', ''ArrowRight''} \<and> parseInt ''Shift'' = None \<and>
   console form5 = [] \<and>
   console (snd (keydown (script_load form5) ''Shift'' form5)) = []"
proof -
  have "keydown (script_load form5) ''Shift'' form5 = number_key ''Shift'' form5"
    by (intro keydown_falls_through) simp_all
  then show ?thesis
    by (simp add: number_key_NaN parseInt_Shift) (simp add: form5_def page_of_def)
qed

text \<open>
  C6. A key that is none of the three arrow keys and whose name does not read as a
  number makes the handler complete (no exception leaves it) with the page exactly as it
  was: no call of \<^verbatim>\<open>focus()\<close> or \<^verbatim>\<open>click()\<close>, nothing reported as uncaught, and the
  Submit Control enabled or disabled as before.
\<close>

theorem keydown_non_numeric:
  assumes "keyName \<notin> {''ArrowDown'', ''ArrowLeft'', ''ArrowRight''}"
      and "parseInt keyName = None"
  shows "keydown c keyName p = (None, p) \<and>
         calls (step c (KeyDown keyName) p) = calls p \<and>
         uncaught (step c (KeyDown keyName) p) = uncaught p \<and>
         submit_enabled (step c (KeyDown keyName) p) = submit_enabled p"
proof -
  have "keydown c keyName p = number_key keyName p"
    using assms(1) by (intro keydown_falls_through) simp_all
  then have "keydown c keyName p = (None, p)"
    by (simp add: number_key_NaN [OF assms(2)])
  then show ?thesis
    by (simp add: report_def)
qed

theorem keydown_non_numeric_witness:
  "''Shift'' \<notin> {''ArrowDown'', ''ArrowLeft'', ''ArrowRight''} \<and> parseInt ''Shift'' = None \<and>
   keydown (script_load form5) ''Shift'' form5 = (None, form5) \<and>
   step (script_load form5) (KeyDown ''Shift'') form5 = form5"
proof -
  have a: "''Shift'' \<notin> {''ArrowDown'', ''ArrowLeft'', ''ArrowRight''}"
    by simp
  show ?thesis
    using a parseInt_Shift keydown_non_numeric [OF a parseInt_Shift, of "script_load form5" form5]
    by (simp add: report_def)
qed

lemma click_focus_unfold:
  "click b (focus b p) =
     (if disabled (elements p ! b) then p\<lparr>calls := calls p @ [Focus b, Click b]\<rparr>
      else dispatch_click b (p\<lparr>calls := calls p @ [Focus b, Click b]\<rparr>))"
  by (simp add: click_def focus_def Let_def)

lemma click_focus_enables:
  assumes "Listener (Some s) \<in> set (listeners (elements p ! b))"
      and "\<not> disabled (elements p ! b)" and "s < length (elements p)"
  shows "\<not> disabled (elements (click b (focus b p)) ! s)"
proof -
  let ?q = "p\<lparr>calls := calls p @ [Focus b, Click b]\<rparr>"
  have "\<not> disabled (elements (dispatch_click b ?q) ! s)"
    using assms(1,3) by (intro dispatch_click_enables) simp_all
  then show ?thesis
    using assms(2) by (simp add: click_focus_unfold)
qed

lemma form5_pressed:
  "click 2 (focus 2 form5) = form5\<lparr>calls := [Focus 2, Click 2]\<rparr>"
  by code_simp

lemma form5_loaded_facts:
  "fst (DOMContentLoaded form5) = None"
  "inputButtons (snd (DOMContentLoaded form5)) = [0, 1, 2, 3, 4]"
  "\<not> submit_enabled (snd (DOMContentLoaded form5))"
  "calls (click 2 (focus 2 (snd (DOMContentLoaded form5)))) = [Focus 2, Click 2]"
  "submit_enabled (click 2 (focus 2 (snd (DOMContentLoaded form5))))"
  by code_simp+

text \<open>
  C9. The four conditions of the handler (ArrowDown with a length above 0, ArrowLeft with
  a length above 1, ArrowRight with a length above 2, a key name that reads as a number
  \<open>N\<close> with \<open>0 < N\<close> at most the length of the collection) exclude each other, so at most
  one holds for an event and the first that holds decides. When one holds and its element
  \<open>b\<close> is in the collection, the handler completes in the page \<open>click b (focus b p)\<close>:
  \<^verbatim>\<open>focus()\<close> has been called on \<open>b\<close> and then \<^verbatim>\<open>click()\<close>, these two calls in this order
  are all it adds to the calls made, and unless \<open>b\<close> is disabled the click event has run
  the listeners of \<open>b\<close>, so that a listener registered by the \<^verbatim>\<open>DOMContentLoaded\<close> listener
  has enabled the Submit Control. When an arrow condition holds and its element is
  missing, the handler throws and has called nothing. When no condition holds, the
  handler completes and the page is as it was.
\<close>

theorem keydown_dispatch:
  "(keyName = ''ArrowDown'' \<and> 0 < inputButtonsLength c \<longrightarrow>
      \<not> (keyName = ''ArrowLeft'' \<and> 1 < inputButtonsLength c) \<and>
      \<not> (keyName = ''ArrowRight'' \<and> 2 < inputButtonsLength c) \<and>
      \<not> (\<exists>N. parseInt keyName = Some N \<and> 0 < N \<and> N \<le> int (length (inputButtons p))) \<and>
      (item (inputButtons p) (inputButtonsHalfLength c) = Some b \<longrightarrow>
         keydown c keyName p = (None, click b (focus b p))) \<and>
      (item (inputButtons p) (inputButtonsHalfLength c) = None \<longrightarrow>
         keydown c keyName p = (Some TypeError, p))) \<and>
   (keyName = ''ArrowLeft'' \<and> 1 < inputButtonsLength c \<longrightarrow>
      \<not> (keyName = ''ArrowRight'' \<and> 2 < inputButtonsLength c) \<and>
      \<not> (\<exists>N. parseInt keyName = Some N \<and> 0 < N \<and> N \<le> int (length (inputButtons p))) \<and>
      (item (inputButtons p) (inputButtonsHalfLength c - 1) = Some b \<longrightarrow>
         keydown c keyName p = (None, click b (focus b p))) \<and>
      (item (inputButtons p) (inputButtonsHalfLength c - 1) = None \<longrightarrow>
         keydown c keyName p = (Some TypeError, p))) \<and>
   (keyName = ''ArrowRight'' \<and> 2 < inputButtonsLength c \<longrightarrow>
      \<not> (\<exists>N. parseInt keyName = Some N \<and> 0 < N \<and> N \<le> int (length (inputButtons p))) \<and>
      (item (inputButtons p) (inputButtonsHalfLength c + 1) = Some b \<longrightarrow>
         keydown c keyName p = (None, click b (focus b p))) \<and>
      (item (inputButtons p) (inputButtonsHalfLength c + 1) = None \<longrightarrow>
         keydown c keyName p = (Some TypeError, p))) \<and>
   (parseInt keyName = Some N \<and> 0 < N \<and> N \<le> int (length (inputButtons p)) \<longrightarrow>
      keydown c keyName p =
      (None, click (inputButtons p ! nat (N - 1)) (focus (inputButtons p ! nat (N - 1)) p))) \<and>
   (\<not> (keyName = ''ArrowDown'' \<and> 0 < inputButtonsLength c) \<and>
    \<not> (keyName = ''ArrowLeft'' \<and> 1 < inputButtonsLength c) \<and>
    \<not> (keyName = ''ArrowRight'' \<and> 2 < inputButtonsLength c) \<and>
    \<not> (\<exists>N. parseInt keyName = Some N \<and> 0 < N \<and> N \<le> int (length (inputButtons p))) \<longrightarrow>
      keydown c keyName p = (None, p)) \<and>
   click b (focus b p) =
     (if disabled (elements p ! b) then p\<lparr>calls := calls p @ [Focus b, Click b]\<rparr>
      else dispatch_click b (p\<lparr>calls := calls p @ [Focus b, Click b]\<rparr>)) \<and>
   calls (click b (focus b p)) = calls p @ [Focus b, Click b] \<and>
   (Listener (Some s) \<in> set (listeners (elements p ! b)) \<and> \<not> disabled (elements p ! b) \<and>
    s < length (elements p) \<longrightarrow>
      \<not> disabled (elements (click b (focus b p)) ! s)) \<and>
   ((keydown c keyName p = (None, p) \<or> keydown c keyName p = (Some TypeError, p)) \<or>
    (\<exists>t. t \<in> set (inputButtons p) \<and>
         keydown c keyName p = (None, click t (focus t p)) \<and>
         calls (snd (keydown c keyName p)) = calls p @ [Focus t, Click t]))"
proof -
  let ?A1 = "keyName = ''ArrowDown'' \<and> 0 < inputButtonsLength c"
  let ?A2 = "keyName = ''ArrowLeft'' \<and> 1 < inputButtonsLength c"
  let ?A3 = "keyName = ''ArrowRight'' \<and> 2 < inputButtonsLength c"
  let ?A4 = "\<exists>N. parseInt keyName = Some N \<and> 0 < N \<and> N \<le> int (length (inputButtons p))"
  have x12: "?A1 \<longrightarrow> \<not> ?A2" and x13: "?A1 \<longrightarrow> \<not> ?A3" and x23: "?A2 \<longrightarrow> \<not> ?A3"
    by simp_all
  have x14: "?A1 \<longrightarrow> \<not> ?A4" and x24: "?A2 \<longrightarrow> \<not> ?A4" and x34: "?A3 \<longrightarrow> \<not> ?A4"
    by (simp_all add: parseInt_ArrowDown parseInt_ArrowLeft parseInt_ArrowRight)
  have fc: "(x = Some t \<longrightarrow> focus_click x p = (None, click t (focus t p))) \<and>
            (x = None \<longrightarrow> focus_click x p = (Some TypeError, p))" for x t
    by (simp add: focus_click_def)
  have b1: "?A1 \<longrightarrow> keydown c keyName p =
      focus_click (item (inputButtons p) (inputButtonsHalfLength c)) p"
    by (simp add: keydown_def)
  have b2: "?A2 \<longrightarrow> keydown c keyName p =
      focus_click (item (inputButtons p) (inputButtonsHalfLength c - 1)) p"
    by (simp add: keydown_def)
  have b3: "?A3 \<longrightarrow> keydown c keyName p =
      focus_click (item (inputButtons p) (inputButtonsHalfLength c + 1)) p"
    by (simp add: keydown_def)
  have b0: "\<not> ?A1 \<and> \<not> ?A2 \<and> \<not> ?A3 \<longrightarrow> keydown c keyName p = number_key keyName p"
    using keydown_falls_through [of keyName c p] by blast
  have c1: "?A1 \<longrightarrow> \<not> ?A2 \<and> \<not> ?A3 \<and> \<not> ?A4 \<and>
      (item (inputButtons p) (inputButtonsHalfLength c) = Some b \<longrightarrow>
         keydown c keyName p = (None, click b (focus b p))) \<and>
      (item (inputButtons p) (inputButtonsHalfLength c) = None \<longrightarrow>
         keydown c keyName p = (Some TypeError, p))"
    using x12 x13 x14 b1 fc [of "item (inputButtons p) (inputButtonsHalfLength c)" b]
    by presburger
  have c2: "?A2 \<longrightarrow> \<not> ?A3 \<and> \<not> ?A4 \<and>
      (item (inputButtons p) (inputButtonsHalfLength c - 1) = Some b \<longrightarrow>
         keydown c keyName p = (None, click b (focus b p))) \<and>
      (item (inputButtons p) (inputButtonsHalfLength c - 1) = None \<longrightarrow>
         keydown c keyName p = (Some TypeError, p))"
    using x23 x24 b2 fc [of "item (inputButtons p) (inputButtonsHalfLength c - 1)" b]
    by presburger
  have c3: "?A3 \<longrightarrow> \<not> ?A4 \<and>
      (item (inputButtons p) (inputButtonsHalfLength c + 1) = Some b \<longrightarrow>
         keydown c keyName p = (None, click b (focus b p))) \<and>
      (item (inputButtons p) (inputButtonsHalfLength c + 1) = None \<longrightarrow>
         keydown c keyName p = (Some TypeError, p))"
    using x34 b3 fc [of "item (inputButtons p) (inputButtonsHalfLength c + 1)" b]
    by presburger
  have c4: "parseInt keyName = Some N \<and> 0 < N \<and> N \<le> int (length (inputButtons p)) \<longrightarrow>
      keydown c keyName p =
      (None, click (inputButtons p ! nat (N - 1)) (focus (inputButtons p ! nat (N - 1)) p))"
  proof
    assume h: "parseInt keyName = Some N \<and> 0 < N \<and> N \<le> int (length (inputButtons p))"
    then have "?A4" by blast
    with x14 x24 x34 have "\<not> ?A1 \<and> \<not> ?A2 \<and> \<not> ?A3" by blast
    with b0 have "keydown c keyName p = number_key keyName p" by blast
    then show "keydown c keyName p =
      (None, click (inputButtons p ! nat (N - 1)) (focus (inputButtons p ! nat (N - 1)) p))"
      using h by (simp add: number_key_in_range)
  qed
  have n0: "\<not> ?A4 \<longrightarrow> number_key keyName p = (None, p)"
  proof (cases "parseInt keyName")
    case None
    then show ?thesis by (simp add: number_key_NaN)
  next
    case (Some M)
    show ?thesis
    proof
      assume "\<not> ?A4"
      with Some have "\<not> (0 < M \<and> M \<le> int (length (inputButtons p)))" by blast
      then show "number_key keyName p = (None, p)"
        by (rule number_key_out_of_range [OF Some])
    qed
  qed
  have c5: "\<not> ?A1 \<and> \<not> ?A2 \<and> \<not> ?A3 \<and> \<not> ?A4 \<longrightarrow> keydown c keyName p = (None, p)"
    using b0 n0 by presburger
  have c6: "click b (focus b p) =
     (if disabled (elements p ! b) then p\<lparr>calls := calls p @ [Focus b, Click b]\<rparr>
      else dispatch_click b (p\<lparr>calls := calls p @ [Focus b, Click b]\<rparr>))"
    by (rule click_focus_unfold)
  have c7: "calls (click b (focus b p)) = calls p @ [Focus b, Click b]"
    by (rule calls_click_focus)
  have c8: "Listener (Some s) \<in> set (listeners (elements p ! b)) \<and> \<not> disabled (elements p ! b) \<and>
    s < length (elements p) \<longrightarrow> \<not> disabled (elements (click b (focus b p)) ! s)"
    using click_focus_enables [of s p b] by blast
  have t: "(focus_click (item (inputButtons p) i) p = (None, p) \<or>
            focus_click (item (inputButtons p) i) p = (Some TypeError, p)) \<or>
    (\<exists>t. t \<in> set (inputButtons p) \<and>
         focus_click (item (inputButtons p) i) p = (None, click t (focus t p)) \<and>
         calls (snd (focus_click (item (inputButtons p) i) p)) = calls p @ [Focus t, Click t])"
    for i
  proof (cases "item (inputButtons p) i")
    case None
    then show ?thesis by (simp add: focus_click_def)
  next
    case (Some t)
    then have "t \<in> set (inputButtons p)" by (rule item_member)
    with Some show ?thesis by (simp add: focus_click_def calls_click_focus)
  qed
  have nk: "(number_key keyName p = (None, p) \<or> number_key keyName p = (Some TypeError, p)) \<or>
    (\<exists>t. t \<in> set (inputButtons p) \<and>
         number_key keyName p = (None, click t (focus t p)) \<and>
         calls (snd (number_key keyName p)) = calls p @ [Focus t, Click t])"
    using t by (simp add: number_key_def split: option.splits)
  have c9: "(keydown c keyName p = (None, p) \<or> keydown c keyName p = (Some TypeError, p)) \<or>
    (\<exists>t. t \<in> set (inputButtons p) \<and>
         keydown c keyName p = (None, click t (focus t p)) \<and>
         calls (snd (keydown c keyName p)) = calls p @ [Focus t, Click t])"
  proof (cases "?A1 \<or> ?A2 \<or> ?A3")
    case True
    then consider ?A1 | ?A2 | ?A3 by blast
    then show ?thesis
    proof cases
      case 1
      with b1 show ?thesis using t [of "inputButtonsHalfLength c"] by simp
    next
      case 2
      with b2 show ?thesis using t [of "inputButtonsHalfLength c - 1"] by simp
    next
      case 3
      with b3 show ?thesis using t [of "inputButtonsHalfLength c + 1"] by simp
    qed
  next
    case False
    with b0 have "keydown c keyName p = number_key keyName p" by blast
    then show ?thesis using nk by simp
  qed
  from c1 c2 c3 c4 c5 c6 c7 c8 c9 show ?thesis
    by (intro conjI)
qed

theorem keydown_dispatch_witness:
  "0 < inputButtonsLength (script_load form5) \<and>
   item (inputButtons form5) (inputButtonsHalfLength (script_load form5)) = Some 2 \<and>
   keydown (script_load form5) ''ArrowDown'' form5 = (None, form5\<lparr>calls := [Focus 2, Click 2]\<rparr>) \<and>
   parseInt ''3'' = Some 3 \<and>
   keydown (script_load form5) ''3'' form5 = (None, form5\<lparr>calls := [Focus 2, Click 2]\<rparr>) \<and>
   keydown (script_load form5) ''Shift'' form5 = (None, form5) \<and>
   keydown (script_load form5) ''ArrowDown'' form0 = (Some TypeError, form0) \<and>
   \<not> submit_enabled (snd (DOMContentLoaded form5)) \<and>
   fst (keydown (script_load form5) ''ArrowDown'' (snd (DOMContentLoaded form5))) = None \<and>
   calls (snd (keydown (script_load form5) ''ArrowDown'' (snd (DOMContentLoaded form5)))) =
     [Focus 2, Click 2] \<and>
   submit_enabled (snd (keydown (script_load form5) ''ArrowDown'' (snd (DOMContentLoaded form5))))"
proof -
  let ?c = "script_load form5"
  let ?q = "snd (DOMContentLoaded form5)"
  have l: "0 < inputButtonsLength ?c"
    by (simp add: script_load_length inputButtons_form5)
  have i5: "item (inputButtons form5) (inputButtonsHalfLength ?c) = Some 2"
    by (simp add: script_load_def inputButtons_form5 item_def)
  have iq: "item (inputButtons ?q) (inputButtonsHalfLength ?c) = Some 2"
    by (simp add: script_load_def inputButtons_form5 form5_loaded_facts item_def)
  have i0: "item (inputButtons form0) (inputButtonsHalfLength ?c) = None"
    by (simp add: inputButtons_form0 item_def)
  have n3: "parseInt ''3'' = Some 3 \<and> 0 < (3::int) \<and> 3 \<le> int (length (inputButtons form5))"
    by (simp add: parseInt_digits inputButtons_form5)
  have sh: "\<not> (\<exists>N. parseInt ''Shift'' = Some N \<and> 0 < N \<and> N \<le> int (length (inputButtons form5)))"
    by (simp add: parseInt_Shift)
  have 1: "keydown ?c ''ArrowDown'' form5 = (None, click 2 (focus 2 form5))"
    using l i5 keydown_dispatch [of "''ArrowDown''" ?c form5 2] by blast
  have 2: "keydown ?c ''3'' form5 = (None, click 2 (focus 2 form5))"
    using n3 keydown_dispatch [of "''3''" ?c form5 _ 3] by (simp add: inputButtons_form5)
  have 3: "keydown ?c ''Shift'' form5 = (None, form5)"
    using sh keydown_dispatch [of "''Shift''" ?c form5] by simp
  have 4: "keydown ?c ''ArrowDown'' form0 = (Some TypeError, form0)"
    using l i0 keydown_dispatch [of "''ArrowDown''" ?c form0] by blast
  have 5: "keydown ?c ''ArrowDown'' ?q = (None, click 2 (focus 2 ?q))"
    using l iq keydown_dispatch [of "''ArrowDown''" ?c ?q 2] by blast
  show ?thesis
    using l i5 n3
    by (simp only: 1 2 3 4 5 form5_pressed form5_loaded_facts fst_conv snd_conv simp_thms)
qed

lemma half_bounds:
  "0 < L \<Longrightarrow> 0 \<le> L div 2 \<and> L div 2 < (L::int)"
  "1 < L \<Longrightarrow> 0 \<le> L div 2 - 1 \<and> L div 2 - 1 < L"
  "2 < L \<Longrightarrow> 0 \<le> L div 2 + 1 \<and> L div 2 + 1 < L"
  by presburger+

lemma item_in_range: "0 \<le> i \<and> i < int (length xs) \<Longrightarrow> item xs i \<noteq> None"
  by (simp add: item_def)

lemma focus_click_completes: "x \<noteq> None \<Longrightarrow> fst (focus_click x p) = None"
  by (cases x) (simp_all add: focus_click_def)

text \<open>
  C10. When the collection has the length the script has read, every index a branch
  uses is inside the collection under the guard of the branch: the half index when the
  length is positive, the one before it when the length exceeds 1, the one after it when
  the length exceeds 2, and \<open>N - 1\<close> when \<open>0 < N\<close> and \<open>N\<close> is at most the length. So no
  key makes the handler read a missing element, and no exception leaves it.
\<close>

theorem keydown_indices_in_bounds:
  assumes "length (inputButtons p) = length (inputButtons p0)"
  shows "(0 < inputButtonsLength (script_load p0) \<longrightarrow>
            0 \<le> inputButtonsHalfLength (script_load p0) \<and>
            inputButtonsHalfLength (script_load p0) < int (length (inputButtons p)) \<and>
            item (inputButtons p) (inputButtonsHalfLength (script_load p0)) \<noteq> None) \<and>
         (1 < inputButtonsLength (script_load p0) \<longrightarrow>
            0 \<le> inputButtonsHalfLength (script_load p0) - 1 \<and>
            inputButtonsHalfLength (script_load p0) - 1 < int (length (inputButtons p)) \<and>
            item (inputButtons p) (inputButtonsHalfLength (script_load p0) - 1) \<noteq> None) \<and>
         (2 < inputButtonsLength (script_load p0) \<longrightarrow>
            0 \<le> inputButtonsHalfLength (script_load p0) + 1 \<and>
            inputButtonsHalfLength (script_load p0) + 1 < int (length (inputButtons p)) \<and>
            item (inputButtons p) (inputButtonsHalfLength (script_load p0) + 1) \<noteq> None) \<and>
         (\<forall>N. 0 < N \<and> N \<le> int (length (inputButtons p)) \<longrightarrow>
            0 \<le> N - 1 \<and> N - 1 < int (length (inputButtons p)) \<and>
            item (inputButtons p) (N - 1) \<noteq> None) \<and>
         (\<forall>keyName. fst (keydown (script_load p0) keyName p) = None)"
proof (intro conjI allI)
  have le: "inputButtonsLength (script_load p0) = int (length (inputButtons p))"
    using assms by (simp add: script_load_length)
  have half: "inputButtonsHalfLength (script_load p0) = int (length (inputButtons p)) div 2"
    using assms by (simp add: script_load_def)
  show a: "0 < inputButtonsLength (script_load p0) \<longrightarrow>
            0 \<le> inputButtonsHalfLength (script_load p0) \<and>
            inputButtonsHalfLength (script_load p0) < int (length (inputButtons p)) \<and>
            item (inputButtons p) (inputButtonsHalfLength (script_load p0)) \<noteq> None"
    unfolding le half
    using half_bounds(1) [of "int (length (inputButtons p))"] item_in_range by blast
  show b: "1 < inputButtonsLength (script_load p0) \<longrightarrow>
            0 \<le> inputButtonsHalfLength (script_load p0) - 1 \<and>
            inputButtonsHalfLength (script_load p0) - 1 < int (length (inputButtons p)) \<and>
            item (inputButtons p) (inputButtonsHalfLength (script_load p0) - 1) \<noteq> None"
    unfolding le half
    using half_bounds(2) [of "int (length (inputButtons p))"] item_in_range by blast
  show c: "2 < inputButtonsLength (script_load p0) \<longrightarrow>
            0 \<le> inputButtonsHalfLength (script_load p0) + 1 \<and>
            inputButtonsHalfLength (script_load p0) + 1 < int (length (inputButtons p)) \<and>
            item (inputButtons p) (inputButtonsHalfLength (script_load p0) + 1) \<noteq> None"
    unfolding le half
    using half_bounds(3) [of "int (length (inputButtons p))"] item_in_range by blast
  show "0 < N \<and> N \<le> int (length (inputButtons p)) \<longrightarrow>
            0 \<le> N - 1 \<and> N - 1 < int (length (inputButtons p)) \<and>
            item (inputButtons p) (N - 1) \<noteq> None" for N
    by (simp add: item_def)
  show "fst (keydown (script_load p0) keyName p) = None" for keyName
  proof (cases "(keyName = ''ArrowDown'' \<and> inputButtonsLength (script_load p0) > 0) \<or>
      (keyName = ''ArrowLeft'' \<and> inputButtonsLength (script_load p0) > 1) \<or>
      (keyName = ''ArrowRight'' \<and> inputButtonsLength (script_load p0) > 2)")
    case True
    then consider
      (down) "keyName = ''ArrowDown''" "0 < inputButtonsLength (script_load p0)" |
      (left) "keyName = ''ArrowLeft''" "1 < inputButtonsLength (script_load p0)" |
      (right) "keyName = ''ArrowRight''" "2 < inputButtonsLength (script_load p0)"
      by blast
    then show ?thesis
    proof cases
      case down
      with a have "item (inputButtons p) (inputButtonsHalfLength (script_load p0)) \<noteq> None"
        by blast
      with down show ?thesis
        by (simp add: keydown_def focus_click_completes)
    next
      case left
      with b have "item (inputButtons p) (inputButtonsHalfLength (script_load p0) - 1) \<noteq> None"
        by blast
      with left show ?thesis
        by (simp add: keydown_def focus_click_completes)
    next
      case right
      with c have "item (inputButtons p) (inputButtonsHalfLength (script_load p0) + 1) \<noteq> None"
        by blast
      with right show ?thesis
        by (simp add: keydown_def focus_click_completes)
    qed
  next
    case False
    then have "keydown (script_load p0) keyName p = number_key keyName p"
      by (intro keydown_falls_through) auto
    then show ?thesis by (simp add: number_key_completes)
  qed
qed

theorem keydown_indices_in_bounds_witness:
  "length (inputButtons form5) = length (inputButtons form5) \<and>
   0 < inputButtonsLength (script_load form5) \<and> 2 < inputButtonsLength (script_load form5) \<and>
   item (inputButtons form5) (inputButtonsHalfLength (script_load form5)) \<noteq> None \<and>
   item (inputButtons form5) (inputButtonsHalfLength (script_load form5) - 1) \<noteq> None \<and>
   item (inputButtons form5) (inputButtonsHalfLength (script_load form5) + 1) \<noteq> None \<and>
   item (inputButtons form5) (5 - 1) \<noteq> None \<and>
   fst (keydown (script_load form5) ''ArrowRight'' form5) = None"
proof -
  have l: "0 < inputButtonsLength (script_load form5)" "1 < inputButtonsLength (script_load form5)"
    "2 < inputButtonsLength (script_load form5)" "int (length (inputButtons form5)) = 5"
    by (simp_all add: script_load_length inputButtons_form5)
  note t = keydown_indices_in_bounds [OF refl, of form5]
  from t have "0 < (5::int) \<and> 5 \<le> int (length (inputButtons form5)) \<longrightarrow>
      0 \<le> (5::int) - 1 \<and> 5 - 1 < int (length (inputButtons form5)) \<and>
      item (inputButtons form5) (5 - 1) \<noteq> None"
    by blast
  then have "item (inputButtons form5) (5 - 1) \<noteq> None"
    using l(4) by simp
  then show ?thesis
    using l t by simp
qed

section \<open>The Submit Control\<close>

lemma DOMContentLoaded_completes:
  "getElementById p ''submit'' = Some s \<Longrightarrow> fst (DOMContentLoaded p) = None"
  by (simp add: DOMContentLoaded_def for_radioButtons_completes)

lemma step_ContentLoaded:
  "getElementById p ''submit'' = Some s \<Longrightarrow> step c ContentLoaded p = snd (DOMContentLoaded p)"
  using DOMContentLoaded_completes [of p s]
  by (cases "DOMContentLoaded p") (simp add: report_def)

lemma submit_enabled_iff:
  "getElementById p ''submit'' = Some s \<Longrightarrow> submit_enabled p = (\<not> disabled (elements p ! s))"
  by (simp add: submit_enabled_def)

lemma form5_facts:
  "getElementById form5 ''submit'' = Some 5"
  "querySelectorAll form5 ''input'' = [0, 1, 2, 3, 4]"
  "\<not> submit_enabled form5"
  by (simp_all add: getElementById_def querySelectorAll_def submit_enabled_def form5_def page_of_def
      radio_def submit_button_def upt_rec)

lemma form_checked_facts:
  "getElementById form_checked ''submit'' = Some 2"
  "querySelectorAll form_checked ''input'' = [0, 1]"
  "checked (elements form_checked ! 1)"
  "name (elements form_checked ! 1) \<noteq> ''assessment''"
  "\<not> submit_enabled form_checked"
  by (simp_all add: getElementById_def querySelectorAll_def submit_enabled_def form_checked_def
      page_of_def radio_def submit_button_def upt_rec)

lemma no_submit_facts:
  "getElementById (no_submit c) ''submit'' = None"
  "querySelectorAll (no_submit c) ''input'' = [0]"
  "checked (elements (no_submit c) ! 0) = c"
  "uncaught (no_submit c) = []"
  by (simp_all add: getElementById_def querySelectorAll_def no_submit_def page_of_def radio_def)

text \<open>
  C3. Once the listener of \<^verbatim>\<open>DOMContentLoaded\<close> has run on a page that has an element with
  id \<^verbatim>\<open>submit\<close>, a click event on any input element, after any further events, leaves
  the Submit Control enabled. And no event (the \<^verbatim>\<open>DOMContentLoaded\<close> listener, a click
  listener, the keydown listener), and so no sequence of events, disables a Submit
  Control that is enabled.
\<close>

theorem submit_enabled_monotone:
  "(getElementById p ''submit'' \<noteq> None \<and> i \<in> set (querySelectorAll p ''input'') \<longrightarrow>
      submit_enabled (step c (ClickOn i) (run c es (step c ContentLoaded p)))) \<and>
   (submit_enabled p \<longrightarrow> submit_enabled (step c e p) \<and> submit_enabled (run c es p))"
proof (intro conjI impI)
  assume a: "getElementById p ''submit'' \<noteq> None \<and> i \<in> set (querySelectorAll p ''input'')"
  then obtain s where s: "getElementById p ''submit'' = Some s" by blast
  from a have i: "i < length (elements p)" by (blast dest: querySelectorAll_less)
  from s have sl: "s < length (elements p)" by (rule getElementById_less)
  let ?p1 = "snd (DOMContentLoaded p)"
  let ?p2 = "run c es ?p1"
  let ?p3 = "dispatch_click i ?p2"
  have k1: "keeps p ?p1" by (rule keeps_DOMContentLoaded)
  have k2: "keeps ?p1 ?p2" by (rule keeps_run)
  have k3: "keeps ?p2 ?p3" by (rule keeps_dispatch_click)
  have k: "keeps p ?p3" by (rule keeps_trans [OF keeps_trans [OF k1 k2] k3])
  have "Listener (Some s) \<in> set (listeners (elements ?p1 ! i))"
    using a i for_radioButtons_listens [of "Some s" "querySelectorAll p ''input''" p i]
    by (simp add: DOMContentLoaded_def s for_radioButtons_completes)
  then have "Listener (Some s) \<in> set (listeners (elements ?p2 ! i))"
    using keeps_listener [OF k2] i by (simp add: keeps_length [OF k1])
  then have "\<not> disabled (elements ?p3 ! s)"
    using sl by (intro dispatch_click_enables) (simp_all add: keeps_length [OF k1] keeps_length [OF k2])
  moreover have "getElementById ?p3 ''submit'' = Some s"
    by (simp add: keeps_getElementById [OF k] s)
  ultimately have "submit_enabled ?p3"
    by (simp add: submit_enabled_iff)
  moreover have "step c ContentLoaded p = ?p1"
    by (rule step_ContentLoaded [OF s])
  ultimately show "submit_enabled (step c (ClickOn i) (run c es (step c ContentLoaded p)))"
    by (simp only: step.simps(3))
next
  assume "submit_enabled p"
  then show "submit_enabled (step c e p)"
    by (rule keeps_submit_enabled [OF keeps_step])
next
  assume "submit_enabled p"
  then show "submit_enabled (run c es p)"
    by (rule keeps_submit_enabled [OF keeps_run])
qed

theorem submit_enabled_monotone_witness:
  "getElementById form5 ''submit'' \<noteq> None \<and> 3 \<in> set (querySelectorAll form5 ''input'') \<and>
   \<not> submit_enabled form5 \<and>
   submit_enabled (step (script_load form5) (ClickOn 3)
     (run (script_load form5) [KeyDown ''Shift''] (step (script_load form5) ContentLoaded form5))) \<and>
   submit_enabled (step (script_load form5) (KeyDown ''ArrowDown'')
     (step (script_load form5) (ClickOn 3)
       (run (script_load form5) [KeyDown ''Shift''] (step (script_load form5) ContentLoaded form5))))"
proof -
  let ?c = "script_load form5"
  let ?q = "step ?c (ClickOn 3) (run ?c [KeyDown ''Shift''] (step ?c ContentLoaded form5))"
  have h: "getElementById form5 ''submit'' \<noteq> None \<and> 3 \<in> set (querySelectorAll form5 ''input'')"
    by (simp add: form5_facts)
  have 1: "submit_enabled ?q"
    using h submit_enabled_monotone [of form5 3 ?c "[KeyDown ''Shift'']"] by blast
  have 2: "submit_enabled (step ?c (KeyDown ''ArrowDown'') ?q)"
    using 1 submit_enabled_monotone [of ?q 3 ?c "[]" "KeyDown ''ArrowDown''"] by blast
  show ?thesis
    using h 1 2 form5_facts(3) by blast
qed

text \<open>
  C7. On a page that has an element with id \<^verbatim>\<open>submit\<close>, if some input element, of any
  name, is checked, then the \<^verbatim>\<open>DOMContentLoaded\<close> listener completes and the Submit
  Control is enabled when it has.
\<close>

theorem DOMContentLoaded_enables_submit:
  assumes "getElementById p ''submit'' = Some s"
      and "i \<in> set (querySelectorAll p ''input'')"
      and "checked (elements p ! i)"
  shows "fst (DOMContentLoaded p) = None \<and>
         getElementById (snd (DOMContentLoaded p)) ''submit'' = Some s \<and>
         \<not> disabled (elements (snd (DOMContentLoaded p)) ! s) \<and>
         submit_enabled (snd (DOMContentLoaded p)) \<and>
         submit_enabled (step c ContentLoaded p)"
proof -
  have i: "i < length (elements p)"
    using assms(2) by (rule querySelectorAll_less)
  have s: "s < length (elements p)"
    using assms(1) by (rule getElementById_less)
  have id: "getElementById (snd (DOMContentLoaded p)) ''submit'' = Some s"
    by (simp add: keeps_getElementById [OF keeps_DOMContentLoaded] assms(1))
  have en: "\<not> disabled (elements (snd (DOMContentLoaded p)) ! s)"
    using for_radioButtons_enables [OF assms(2,3) i s]
    by (simp add: DOMContentLoaded_def assms(1))
  have st: "step c ContentLoaded p = snd (DOMContentLoaded p)"
    by (rule step_ContentLoaded [OF assms(1)])
  show ?thesis
    unfolding st using id en DOMContentLoaded_completes [OF assms(1)]
    by (simp add: submit_enabled_iff [OF id])
qed

theorem DOMContentLoaded_enables_submit_witness:
  "getElementById form_checked ''submit'' = Some 2 \<and>
   1 \<in> set (querySelectorAll form_checked ''input'') \<and>
   checked (elements form_checked ! 1) \<and>
   name (elements form_checked ! 1) \<noteq> ''assessment'' \<and>
   \<not> submit_enabled form_checked \<and>
   fst (DOMContentLoaded form_checked) = None \<and>
   submit_enabled (snd (DOMContentLoaded form_checked))"
proof -
  have m: "1 \<in> set (querySelectorAll form_checked ''input'')"
    by (simp add: form_checked_facts)
  show ?thesis
    using m form_checked_facts
      DOMContentLoaded_enables_submit [OF form_checked_facts(1) m form_checked_facts(3)]
    by blast
qed

text \<open>
  C8, as amended. On a page with no element of id \<^verbatim>\<open>submit\<close> the listener of
  \<^verbatim>\<open>DOMContentLoaded\<close> checks nothing before it uses \<^verbatim>\<open>submitButton\<close>. If some input is
  checked, the listener throws a TypeError. If none is, it completes, and then a click
  event on any input has the listener registered there throw a TypeError, which the
  browser reports, each time it runs. Only on a page with no input at all does the
  listener do nothing.
\<close>

theorem DOMContentLoaded_without_submit:
  assumes "getElementById p ''submit'' = None"
  shows "((\<exists>i\<in>set (querySelectorAll p ''input''). checked (elements p ! i)) \<longrightarrow>
            fst (DOMContentLoaded p) = Some TypeError) \<and>
         (\<not> (\<exists>i\<in>set (querySelectorAll p ''input''). checked (elements p ! i)) \<longrightarrow>
            fst (DOMContentLoaded p) = None \<and>
            (\<forall>i\<in>set (querySelectorAll p ''input'').
               \<exists>k. uncaught (dispatch_click i (snd (DOMContentLoaded p))) =
                   uncaught (snd (DOMContentLoaded p)) @ replicate (Suc k) TypeError)) \<and>
         (querySelectorAll p ''input'' = [] \<longrightarrow> DOMContentLoaded p = (None, p))"
proof -
  let ?rs = "querySelectorAll p ''input''"
  have d: "DOMContentLoaded p = for_radioButtons None ?rs p"
    by (simp add: DOMContentLoaded_def assms)
  have len: "\<forall>i\<in>set ?rs. i < length (elements p)"
    by (simp add: querySelectorAll_less)
  note f = for_radioButtons_null [OF len]
  have "\<exists>k. uncaught (dispatch_click i (snd (DOMContentLoaded p))) =
            uncaught (snd (DOMContentLoaded p)) @ replicate (Suc k) TypeError"
    if "\<not> (\<exists>i\<in>set ?rs. checked (elements p ! i))" and "i \<in> set ?rs" for i
  proof -
    have "fst (for_radioButtons None ?rs p) = None"
      using that(1) f by simp
    then have "Listener None \<in> set (listeners (elements (snd (for_radioButtons None ?rs p)) ! i))"
      using that(2) len by (intro for_radioButtons_listens) simp_all
    then show ?thesis
      unfolding d by (rule dispatch_click_null_listener)
  qed
  moreover have "querySelectorAll p ''input'' = [] \<longrightarrow> DOMContentLoaded p = (None, p)"
    by (simp add: d)
  ultimately show ?thesis
    using f by (simp add: d)
qed

theorem DOMContentLoaded_without_submit_witness:
  "getElementById (no_submit True) ''submit'' = None \<and>
   (\<exists>i\<in>set (querySelectorAll (no_submit True) ''input''). checked (elements (no_submit True) ! i)) \<and>
   fst (DOMContentLoaded (no_submit True)) = Some TypeError \<and>
   getElementById (no_submit False) ''submit'' = None \<and>
   \<not> (\<exists>i\<in>set (querySelectorAll (no_submit False) ''input''). checked (elements (no_submit False) ! i)) \<and>
   fst (DOMContentLoaded (no_submit False)) = None \<and>
   (\<exists>k. uncaught (dispatch_click 0 (snd (DOMContentLoaded (no_submit False)))) =
        uncaught (snd (DOMContentLoaded (no_submit False))) @ replicate (Suc k) TypeError)"
proof -
  have t: "\<exists>i\<in>set (querySelectorAll (no_submit True) ''input''). checked (elements (no_submit True) ! i)"
    and u: "\<not> (\<exists>i\<in>set (querySelectorAll (no_submit False) ''input''). checked (elements (no_submit False) ! i))"
    and z: "0 \<in> set (querySelectorAll (no_submit False) ''input'')"
    by (simp_all add: no_submit_facts)
  show ?thesis
    using t u z no_submit_facts(1)
      DOMContentLoaded_without_submit [OF no_submit_facts(1), of True]
      DOMContentLoaded_without_submit [OF no_submit_facts(1), of False]
    by blast
qed

text \<open>
  The claim C8 as it is written fails. With no element of id \<^verbatim>\<open>submit\<close> and one checked
  radio button, the listener of \<^verbatim>\<open>DOMContentLoaded\<close> throws; with the radio button not
  checked, the click listener it has registered throws when the button is clicked.
\<close>

theorem missing_submit_counterexample:
  "getElementById (no_submit True) ''submit'' = None \<and>
   fst (DOMContentLoaded (no_submit True)) = Some TypeError \<and>
   getElementById (no_submit False) ''submit'' = None \<and>
   uncaught (no_submit False) = [] \<and>
   uncaught (step (script_load (no_submit False)) (ClickOn 0)
     (step (script_load (no_submit False)) ContentLoaded (no_submit False))) = [TypeError]"
  by (simp add: no_submit_facts DOMContentLoaded_def report_def)
    (simp add: no_submit_def page_of_def radio_def addEventListener_def dispatch_click_def)

end
